theory Spec2Isabelle
  imports Complex_Main
begin

section \<open>The epoch controller of \<open>torch_trainer/_utils.py\<close>\<close>

text \<open>
  The class \<open>TorchTrainer\<close> drives a training loop: per epoch a training pass, an
  optional evaluation pass, the commit of the epoch's mean losses to three history
  lists, and a timing and report step. The model below follows the source statement by
  statement. What the class does not own is supplied by an environment:
  \<^item> the batches of each source, each with the loss value the injected callables
    compute for it and, possibly, an exception raised at one of the calls made for it;
  \<^item> the point of \<open>__try_save_loss_history\<close> at which a \<open>KeyboardInterrupt\<close> arrives,
    if one does;
  \<^item> the reading of \<open>time()\<close>, and an exception that \<open>draw_info\<close> may raise after its
    plots (while it saves or shows the figure, or a cancellation that arrives there).
  Python floats are modelled as real numbers: sums and quotients are exact.
\<close>

subsection \<open>Exceptions, external calls, batches\<close>

datatype exn =
  KeyboardInterrupt | UnboundLocalError | ZeroDivisionError | ValueError | ComputationError

text \<open>The calls the controller makes to its collaborators, logged in the order made.\<close>

datatype call =
    ZeroGrad
  | Forward
  | CalcLoss
  | Backward
  | ClipGradNorm real
  | OptimizerStep
  | LossItem
  | DrawInfo

text \<open>
  The places of a batch-loop iteration at which an exception can be raised: fetching the
  batch from the iterator, and each call of the loop body.
\<close>

datatype stage = AtFetch | AtZeroGrad | AtForward | AtCalcLoss | AtBackward | AtClip | AtStep | AtItem

record batch =
  loss :: real
  fault :: "(stage \<times> exn) option"

fun raise_at :: "stage \<Rightarrow> batch \<Rightarrow> exn option" where
  "raise_at st b =
     (case fault b of
        None \<Rightarrow> None
      | Some (st', e) \<Rightarrow> if st' = st then Some e else None)"

text \<open>The phase of an epoch in which an exception was raised, and how a call ends.\<close>

datatype phase = TrainPhase | EvalPhase | CommitPhase | TimingPhase

datatype outcome = Normal | Raises phase exn

text \<open>
  The statements of \<open>__try_save_loss_history\<close> before which a \<open>KeyboardInterrupt\<close> can
  arrive (a list append itself is not interruptible).
\<close>

datatype commit_point = BeforeTrainAppend | BeforeValidAppend | BeforeTestAppend | BeforeReturn

record epoch_env =
  train_src :: "batch list"
  valid_src :: "batch list"
  test_src :: "batch list"
  commit_cancel :: "commit_point option"
  clock :: real
  draw_fault :: "exn option"

record run_env =
  start_clock :: real
  epochs :: "nat \<Rightarrow> epoch_env"

subsection \<open>The controller object\<close>

text \<open>
  The slots of \<open>TorchTrainer\<close> that the control flow reads or writes, without the leading
  underscores; \<open>mode\<close> is \<open>network.training\<close>, and \<open>calls\<close> is the log of external calls.
  The slots \<open>__time_stamp\<close>, \<open>__train_loss\<close> and \<open>__speed\<close> are unset after construction
  and written by \<open>train\<close> before they are read; they start at 0 here.
\<close>

record trainer =
  has_valid :: bool
  has_test :: bool
  n_epochs :: int
  clip_rate :: "real option"
  initial_mode :: bool
  mode :: bool
  train_loss_history :: "real list"
  valid_loss_history :: "real list"
  test_loss_history :: "real list"
  epoch :: int
  completed :: bool
  time_elapsed :: real
  time_stamp :: real
  train_loss :: real
  val_loss :: real
  test_loss :: real
  speed :: real
  calls :: "call list"

text \<open>
  \<open>__init__\<close>, for arguments that pass its type checks: the network's current mode flag,
  whether a test and a validation iterator are given, the epoch count and the clip rate.
\<close>

definition init :: "bool \<Rightarrow> bool \<Rightarrow> bool \<Rightarrow> int \<Rightarrow> real option \<Rightarrow> trainer" where
  "init network_training test_given valid_given n c =
     \<lparr> has_valid = valid_given, has_test = test_given, n_epochs = n, clip_rate = c,
       initial_mode = network_training, mode = network_training,
       train_loss_history = [], valid_loss_history = [], test_loss_history = [],
       epoch = 1, completed = False, time_elapsed = 0, time_stamp = 0,
       train_loss = 0, val_loss = 0, test_loss = 0, speed = 0, calls = [] \<rparr>"

definition clear_history :: "trainer \<Rightarrow> trainer" where
  "clear_history s =
     s\<lparr> valid_loss_history := [], train_loss_history := [], test_loss_history := [],
        epoch := 1, completed := False, time_elapsed := 0 \<rparr>"

subsection \<open>The batch loops\<close>

text \<open>
  The body of the training loop and of an evaluation loop, as the calls made for one
  batch, each with the stage at which it can raise.
\<close>

definition train_steps :: "real option \<Rightarrow> (stage \<times> call) list" where
  "train_steps clip =
     [(AtZeroGrad, ZeroGrad), (AtForward, Forward), (AtCalcLoss, CalcLoss),
      (AtBackward, Backward)]
     @ (case clip of None \<Rightarrow> [] | Some c \<Rightarrow> [(AtClip, ClipGradNorm c)])
     @ [(AtStep, OptimizerStep), (AtItem, LossItem)]"

definition eval_steps :: "(stage \<times> call) list" where
  "eval_steps = [(AtForward, Forward), (AtCalcLoss, CalcLoss)]"

fun run_calls :: "batch \<Rightarrow> (stage \<times> call) list \<Rightarrow> call list \<Rightarrow> call list \<times> exn option" where
  "run_calls b [] lg = (lg, None)"
| "run_calls b ((st, c) # rest) lg =
     (case raise_at st b of
        Some e \<Rightarrow> (lg @ [c], Some e)
      | None \<Rightarrow> run_calls b rest (lg @ [c]))"

text \<open>
  \<open>for n_batch, batch in enumerate(source, 1): body; acc += loss\<close>. The local \<open>n_batch\<close>
  is bound by the loop header only, so it keeps its old value (or stays unbound) when
  the source is empty.
\<close>

fun batch_loop ::
  "(stage \<times> call) list \<Rightarrow> batch list \<Rightarrow> nat \<Rightarrow> nat option \<Rightarrow> real \<Rightarrow> call list
     \<Rightarrow> (nat option \<times> real \<times> call list) \<times> exn option" where
  "batch_loop steps [] i nb acc lg = ((nb, acc, lg), None)"
| "batch_loop steps (b # bs) i nb acc lg =
     (case raise_at AtFetch b of
        Some e \<Rightarrow> ((nb, acc, lg), Some e)
      | None \<Rightarrow>
          (case run_calls b steps lg of
             (lg', Some e) \<Rightarrow> ((Some i, acc, lg'), Some e)
           | (lg', None) \<Rightarrow> batch_loop steps bs (Suc i) (Some i) (acc + loss b) lg'))"

text \<open>A whole pass over one source, then \<open>acc /= n_batch\<close>.\<close>

definition mean_pass ::
  "(stage \<times> call) list \<Rightarrow> batch list \<Rightarrow> nat option \<Rightarrow> trainer
     \<Rightarrow> trainer \<times> nat option \<times> (exn + real)" where
  "mean_pass steps src nb s =
     (case batch_loop steps src 1 nb 0 (calls s) of
        ((nb', acc, lg), Some e) \<Rightarrow> (s\<lparr>calls := lg\<rparr>, nb', Inl e)
      | ((nb', acc, lg), None) \<Rightarrow>
          (case nb' of
             None \<Rightarrow> (s\<lparr>calls := lg\<rparr>, nb', Inl UnboundLocalError)
           | Some n \<Rightarrow> (s\<lparr>calls := lg\<rparr>, nb', Inr (acc / real n))))"

subsection \<open>The phases of an epoch\<close>

definition train_phase :: "epoch_env \<Rightarrow> nat option \<Rightarrow> trainer \<Rightarrow> trainer \<times> nat option \<times> outcome" where
  "train_phase env nb s =
     (case mean_pass (train_steps (clip_rate s)) (train_src env) nb (s\<lparr>mode := True\<rparr>) of
        (s1, nb1, Inl e) \<Rightarrow> (s1, nb1, Raises TrainPhase e)
      | (s1, nb1, Inr m) \<Rightarrow> (s1\<lparr>train_loss := m\<rparr>, nb1, Normal))"

definition valid_pass :: "epoch_env \<Rightarrow> nat option \<Rightarrow> trainer \<Rightarrow> trainer \<times> nat option \<times> outcome" where
  "valid_pass env nb s =
     (if has_valid s then
        (case mean_pass eval_steps (valid_src env) nb s of
           (s1, nb1, Inl e) \<Rightarrow> (s1, nb1, Raises EvalPhase e)
         | (s1, nb1, Inr m) \<Rightarrow> (s1\<lparr>val_loss := m\<rparr>, nb1, Normal))
      else (s, nb, Normal))"

definition test_pass :: "epoch_env \<Rightarrow> nat option \<Rightarrow> trainer \<Rightarrow> trainer \<times> nat option \<times> outcome" where
  "test_pass env nb s =
     (if has_test s then
        (case mean_pass eval_steps (test_src env) nb s of
           (s1, nb1, Inl e) \<Rightarrow> (s1, nb1, Raises EvalPhase e)
         | (s1, nb1, Inr m) \<Rightarrow> (s1\<lparr>test_loss := m\<rparr>, nb1, Normal))
      else (s, nb, Normal))"

definition eval_phase :: "epoch_env \<Rightarrow> nat option \<Rightarrow> trainer \<Rightarrow> trainer \<times> nat option \<times> outcome" where
  "eval_phase env nb s =
     (if has_valid s \<or> has_test s then
        (case valid_pass env nb (s\<lparr>mode := False\<rparr>) of
           (s1, nb1, Raises ph e) \<Rightarrow> (s1, nb1, Raises ph e)
         | (s1, nb1, Normal) \<Rightarrow> test_pass env nb1 s1)
      else (s, nb, Normal))"

text \<open>
  \<open>__try_save_loss_history\<close>, with the point at which a cancellation arrives, and
  \<open>__retry_save_loss_history\<close>.
\<close>

definition try_save_loss_history :: "commit_point option \<Rightarrow> trainer \<Rightarrow> trainer \<times> exn option" where
  "try_save_loss_history cancel s =
     (if cancel = Some BeforeTrainAppend then (s, Some KeyboardInterrupt)
      else
        let s1 = s\<lparr>train_loss_history := train_loss_history s @ [train_loss s]\<rparr> in
        if cancel = Some BeforeValidAppend then (s1, Some KeyboardInterrupt)
        else
          let s2 = (if has_valid s1
                    then s1\<lparr>valid_loss_history := valid_loss_history s1 @ [val_loss s1]\<rparr>
                    else s1) in
          if cancel = Some BeforeTestAppend then (s2, Some KeyboardInterrupt)
          else
            let s3 = (if has_test s2
                      then s2\<lparr>test_loss_history := test_loss_history s2 @ [test_loss s2]\<rparr>
                      else s2) in
            if cancel = Some BeforeReturn then (s3, Some KeyboardInterrupt)
            else (s3, None))"

definition retry_save_loss_history :: "trainer \<Rightarrow> trainer" where
  "retry_save_loss_history s =
     (let s1 = (if int (length (train_loss_history s)) \<noteq> epoch s
                then s\<lparr>train_loss_history := train_loss_history s @ [train_loss s]\<rparr>
                else s);
          s2 = (if has_valid s1 \<and> length (valid_loss_history s1) < length (train_loss_history s1)
                then s1\<lparr>valid_loss_history := valid_loss_history s1 @ [val_loss s1]\<rparr>
                else s1)
      in (if has_test s2 \<and> length (test_loss_history s2) < length (valid_loss_history s2)
          then s2\<lparr>test_loss_history := test_loss_history s2 @ [test_loss s2]\<rparr>
          else s2))"

text \<open>\<open>__calc_timing_stats\<close>: the division \<open>1 / time_diff\<close> raises when the clock did not move.\<close>

definition calc_timing_stats :: "real \<Rightarrow> trainer \<Rightarrow> trainer \<times> exn option" where
  "calc_timing_stats now s =
     (let time_diff = now - time_stamp s;
          s1 = s\<lparr>time_stamp := now, time_elapsed := time_elapsed s + time_diff\<rparr>
      in if time_diff = 0 then (s1, Some ZeroDivisionError)
         else (s1\<lparr>speed := 1 / time_diff\<rparr>, None))"

text \<open>
  \<open>plt.plot(range(1, ep + 1), ys)\<close>: the plot raises \<open>ValueError\<close> when the two sequences
  differ in length; the range has \<open>max 0 ep\<close> elements.
\<close>

definition plot :: "int \<Rightarrow> real list \<Rightarrow> exn option" where
  "plot ep ys = (if int (length ys) = max 0 ep then None else Some ValueError)"

text \<open>
  \<open>draw_info\<close> pushes the report: it plots the train history, and the validation and the
  test history when their source is configured, against \<open>range(1, self._epoch + 1)\<close>, then
  saves, prints and shows. What is rendered is outside the model; \<open>flt\<close> is the exception,
  if any, of the part after the plots.
\<close>

definition draw_info :: "exn option \<Rightarrow> trainer \<Rightarrow> trainer \<times> exn option" where
  "draw_info flt s =
     (let s1 = s\<lparr>calls := calls s @ [DrawInfo]\<rparr> in
      case plot (epoch s) (train_loss_history s) of
        Some e \<Rightarrow> (s1, Some e)
      | None \<Rightarrow>
          (case (if has_valid s then plot (epoch s) (valid_loss_history s) else None) of
             Some e \<Rightarrow> (s1, Some e)
           | None \<Rightarrow>
               (case (if has_test s then plot (epoch s) (test_loss_history s) else None) of
                  Some e \<Rightarrow> (s1, Some e)
                | None \<Rightarrow> (s1, flt))))"

text \<open>The \<open>finally\<close> suite of the \<open>try\<close> statement.\<close>

definition finally_suite :: "epoch_env \<Rightarrow> trainer \<Rightarrow> trainer \<times> exn option" where
  "finally_suite env s =
     (case calc_timing_stats (clock env) s of
        (s1, Some e) \<Rightarrow> (s1, Some e)
      | (s1, None) \<Rightarrow>
          (case draw_info (draw_fault env) s1 of
             (s2, Some e) \<Rightarrow> (s2, Some e)
           | (s2, None) \<Rightarrow> (s2\<lparr>epoch := epoch s2 + 1\<rparr>, None)))"

text \<open>
  The \<open>try\<close> statement: an exception raised in the \<open>finally\<close> suite replaces the pending
  one; otherwise the \<open>KeyboardInterrupt\<close> re-raised by the handler propagates.
\<close>

definition commit_phase :: "epoch_env \<Rightarrow> trainer \<Rightarrow> trainer \<times> outcome" where
  "commit_phase env s =
     (case try_save_loss_history (commit_cancel env) s of
        (s1, None) \<Rightarrow>
          (case finally_suite env s1 of
             (s2, Some e) \<Rightarrow> (s2, Raises TimingPhase e)
           | (s2, None) \<Rightarrow> (s2, Normal))
      | (s1, Some e) \<Rightarrow>
          (let s2 = (if e = KeyboardInterrupt
                     then (retry_save_loss_history s1)\<lparr>mode := initial_mode s1\<rparr>
                     else s1)
           in case finally_suite env s2 of
                (s3, Some e') \<Rightarrow> (s3, Raises TimingPhase e')
              | (s3, None) \<Rightarrow> (s3, Raises CommitPhase e)))"

text \<open>One iteration of \<open>for epoch in range(self._epoch, n_epochs + 1)\<close>.\<close>

definition run_epoch :: "epoch_env \<Rightarrow> nat option \<Rightarrow> trainer \<Rightarrow> trainer \<times> nat option \<times> outcome" where
  "run_epoch env nb s =
     (case train_phase env nb s of
        (s1, nb1, Raises ph e) \<Rightarrow> (s1, nb1, Raises ph e)
      | (s1, nb1, Normal) \<Rightarrow>
          (case eval_phase env nb1 s1 of
             (s2, nb2, Raises ph e) \<Rightarrow> (s2, nb2, Raises ph e)
           | (s2, nb2, Normal) \<Rightarrow>
               (case commit_phase env s2 of (s3, out) \<Rightarrow> (s3, nb2, out))))"

text \<open>
  The epoch loop: \<open>k\<close> iterations are left, \<open>i\<close> have been started, \<open>nb\<close> is the local
  \<open>n_batch\<close>, which lives across the iterations.
\<close>

fun epoch_loop :: "(nat \<Rightarrow> epoch_env) \<Rightarrow> nat \<Rightarrow> nat \<Rightarrow> nat option \<Rightarrow> trainer \<Rightarrow> trainer \<times> outcome" where
  "epoch_loop envs i 0 nb s = (s, Normal)"
| "epoch_loop envs i (Suc k) nb s =
     (case run_epoch (envs i) nb s of
        (s1, nb1, Raises ph e) \<Rightarrow> (s1, Raises ph e)
      | (s1, nb1, Normal) \<Rightarrow> epoch_loop envs (Suc i) k nb1 s1)"

text \<open>
  \<open>train\<close>: \<open>range(self._epoch, n_epochs + 1)\<close> is evaluated once and has
  \<open>max 0 (n_epochs + 1 - epoch)\<close> elements.
\<close>

definition train :: "run_env \<Rightarrow> trainer \<Rightarrow> trainer \<times> outcome" where
  "train env s =
     (case epoch_loop (epochs env) 0 (nat (n_epochs s + 1 - epoch s)) None
             (s\<lparr>time_stamp := start_clock env\<rparr>) of
        (s1, Raises ph e) \<Rightarrow> (s1, Raises ph e)
      | (s1, Normal) \<Rightarrow> (s1\<lparr>completed := True, mode := initial_mode s1\<rparr>, Normal))"

subsection \<open>Reachable controller states and what is observed of them\<close>

text \<open>
  Every state a caller can observe: after construction, and after any sequence of calls
  of \<open>clear_history\<close> and of \<open>train\<close>, however each call of \<open>train\<close> ends.
\<close>

inductive reachable :: "trainer \<Rightarrow> bool" where
  reach_init: "reachable (init network_training test_given valid_given n c)"
| reach_clear: "reachable s \<Longrightarrow> reachable (clear_history s)"
| reach_train: "reachable s \<Longrightarrow> train env s = (s', out) \<Longrightarrow> reachable s'"

text \<open>The length relation between the three histories and the epoch counter.\<close>

definition history_inv :: "trainer \<Rightarrow> bool" where
  "history_inv s =
     (int (length (train_loss_history s)) = epoch s - 1
      \<and> length (valid_loss_history s) = (if has_valid s then length (train_loss_history s) else 0)
      \<and> length (test_loss_history s) = (if has_test s then length (train_loss_history s) else 0))"

definition history_lengths :: "trainer \<Rightarrow> nat \<times> nat \<times> nat" where
  "history_lengths s =
     (length (train_loss_history s), length (valid_loss_history s), length (test_loss_history s))"

text \<open>The constructor arguments kept by the controller.\<close>

definition config_of :: "trainer \<Rightarrow> bool \<times> bool \<times> int \<times> real option \<times> bool" where
  "config_of s = (has_valid s, has_test s, n_epochs s, clip_rate s, initial_mode s)"

text \<open>The number of reports pushed so far, and the clip calls among the logged calls.\<close>

definition reports :: "trainer \<Rightarrow> nat" where
  "reports s = length (filter (\<lambda>c. c = DrawInfo) (calls s))"

fun is_clip :: "call \<Rightarrow> bool" where
  "is_clip (ClipGradNorm r) = True"
| "is_clip c = False"

text \<open>An epoch gets as far as its commit when it does not raise in the two passes before.\<close>

fun reaches_commit :: "outcome \<Rightarrow> bool" where
  "reaches_commit Normal = True"
| "reaches_commit (Raises ph e) = (ph = CommitPhase \<or> ph = TimingPhase)"

subsection \<open>The history accessors and object identity\<close>

text \<open>
  The three properties \<open>train_loss_history\<close>, \<open>test_loss_history\<close> and
  \<open>valid_loss_history\<close> return \<open>self._..._loss_history.copy()\<close>. What a copy is good
  for shows only when lists are objects with an identity, so here the lists live in a
  store: \<open>cells\<close> gives the contents of each list object, and the references below
  \<open>next_ref\<close> are the allocated ones. The controller holds the references of its three
  lists (the record \<open>trainer\<close> above holds their contents).
\<close>

type_synonym ref = nat

record heap =
  cells :: "ref \<Rightarrow> real list"
  next_ref :: ref

record trainer_obj =
  train_history_ref :: ref
  valid_history_ref :: ref
  test_history_ref :: ref

text \<open>\<open>list.copy()\<close>: a new list object with the same elements.\<close>

definition list_copy :: "ref \<Rightarrow> heap \<Rightarrow> ref \<times> heap" where
  "list_copy a h =
     (next_ref h, h\<lparr>cells := (cells h)(next_ref h := cells h a), next_ref := Suc (next_ref h)\<rparr>)"

definition get_train_loss_history :: "trainer_obj \<Rightarrow> heap \<Rightarrow> ref \<times> heap" where
  "get_train_loss_history ob h = list_copy (train_history_ref ob) h"

definition get_test_loss_history :: "trainer_obj \<Rightarrow> heap \<Rightarrow> ref \<times> heap" where
  "get_test_loss_history ob h = list_copy (test_history_ref ob) h"

definition get_valid_loss_history :: "trainer_obj \<Rightarrow> heap \<Rightarrow> ref \<times> heap" where
  "get_valid_loss_history ob h = list_copy (valid_history_ref ob) h"

text \<open>
  Whatever the caller does in place to the list object \<open>r\<close> (append, item assignment,
  deletion, clear, sort): its contents become \<open>f\<close> of the old contents.
\<close>

definition list_mutate :: "ref \<Rightarrow> (real list \<Rightarrow> real list) \<Rightarrow> heap \<Rightarrow> heap" where
  "list_mutate r f h = h\<lparr>cells := (cells h)(r := f (cells h r))\<rparr>"

definition allocated :: "trainer_obj \<Rightarrow> heap \<Rightarrow> bool" where
  "allocated ob h =
     (train_history_ref ob < next_ref h \<and> valid_history_ref ob < next_ref h
      \<and> test_history_ref ob < next_ref h)"

subsection \<open>Concrete runs\<close>

text \<open>Batches that raise nothing, and an epoch in which nothing is raised or cancelled.\<close>

definition plain_batch :: "real \<Rightarrow> batch" where
  "plain_batch l = \<lparr>loss = l, fault = None\<rparr>"

definition quiet_epoch :: "real list \<Rightarrow> real list \<Rightarrow> real list \<Rightarrow> real \<Rightarrow> epoch_env" where
  "quiet_epoch trs vs ts t =
     \<lparr>train_src = map plain_batch trs, valid_src = map plain_batch vs,
      test_src = map plain_batch ts, commit_cancel = None, clock = t, draw_fault = None\<rparr>"

text \<open>
  A run whose every epoch is the same quiet epoch but for the clock, which reads
  \<open>1, 2, 3, ...\<close> after a start at \<open>0\<close>.
\<close>

definition steady_run :: "real list \<Rightarrow> real list \<Rightarrow> real list \<Rightarrow> run_env" where
  "steady_run trs vs ts =
     \<lparr>start_clock = 0, epochs = (\<lambda>i. quiet_epoch trs vs ts (real (Suc i)))\<rparr>"

text \<open>
  The fields that outlive an epoch: the configuration, the histories, the counters and
  the time stamp (not the mode flag, the last losses, the speed or the call log).
\<close>

definition durable ::
  "trainer \<Rightarrow> (bool \<times> bool \<times> int \<times> real option \<times> bool) \<times> real list \<times> real list \<times> real list
     \<times> int \<times> bool \<times> real \<times> real" where
  "durable s =
     (config_of s, train_loss_history s, valid_loss_history s, test_loss_history s,
      epoch s, completed s, time_elapsed s, time_stamp s)"

text \<open>
  The state in which the \<open>finally\<close> suite of the \<open>try\<close> statement starts: after the
  commit, or after the cancelled commit and the handler.
\<close>

definition committed :: "epoch_env \<Rightarrow> trainer \<Rightarrow> trainer" where
  "committed env s =
     (case commit_cancel env of
        None \<Rightarrow> fst (try_save_loss_history None s)
      | Some p \<Rightarrow> (retry_save_loss_history (fst (try_save_loss_history (Some p) s)))
                    \<lparr>mode := initial_mode s\<rparr>)"


text \<open>
  The same run with every commit cancelled at the point \<open>p\<close> (the first cancellation ends
  the call of \<open>train\<close>).
\<close>

definition cancelled_run :: "real list \<Rightarrow> real list \<Rightarrow> real list \<Rightarrow> commit_point \<Rightarrow> run_env" where
  "cancelled_run trs vs ts p =
     \<lparr>start_clock = 0,
      epochs = (\<lambda>i. (quiet_epoch trs vs ts (real (Suc i)))\<lparr>commit_cancel := Some p\<rparr>)\<rparr>"

text \<open>
  A run in which the report of each epoch is interrupted after its plots, while the figure
  is shown.
\<close>

definition draw_cancelled_run :: "real list \<Rightarrow> run_env" where
  "draw_cancelled_run trs =
     \<lparr>start_clock = 0,
      epochs = (\<lambda>i. (quiet_epoch trs [] [] (real (Suc i)))\<lparr>draw_fault := Some KeyboardInterrupt\<rparr>)\<rparr>"

text \<open>A batch for which the call at stage \<open>st\<close> raises \<open>e\<close>, and a run made of such batches.\<close>

definition faulty_batch :: "real \<Rightarrow> stage \<Rightarrow> exn \<Rightarrow> batch" where
  "faulty_batch l st e = \<lparr>loss = l, fault = Some (st, e)\<rparr>"

definition faulty_epoch :: "stage \<Rightarrow> exn \<Rightarrow> real \<Rightarrow> epoch_env" where
  "faulty_epoch st e t = (quiet_epoch [] [] [] t)\<lparr>train_src := [faulty_batch 2 st e]\<rparr>"

definition faulty_run :: "stage \<Rightarrow> exn \<Rightarrow> run_env" where
  "faulty_run st e = \<lparr>start_clock = 0, epochs = (\<lambda>i. faulty_epoch st e (real (Suc i)))\<rparr>"

text \<open>
  A run whose train source yields one batch in the first epoch and none afterwards.
\<close>

definition drained_run :: run_env where
  "drained_run =
     \<lparr>start_clock = 0,
      epochs = (\<lambda>i. quiet_epoch (if i = 0 then [2] else []) [] [] (real (Suc i)))\<rparr>"

text \<open>A controller object with its three lists in a small store.\<close>

definition view :: "trainer_obj \<Rightarrow> heap \<Rightarrow> real list \<times> real list \<times> real list" where
  "view ob h =
     (cells h (train_history_ref ob), cells h (valid_history_ref ob), cells h (test_history_ref ob))"

definition sample_obj :: trainer_obj where
  "sample_obj = \<lparr>train_history_ref = 0, valid_history_ref = 1, test_history_ref = 2\<rparr>"

definition sample_heap :: heap where
  "sample_heap = \<lparr>cells = (\<lambda>r. if r = 0 then [4] else if r = 1 then [5] else if r = 2 then [6] else []),
                  next_ref = 3\<rparr>"

text \<open>
  The three histories as \<open>draw_info\<close> needs them for its plots: each plotted history has
  as many entries as the epoch counter says.
\<close>

definition plots_fit :: "trainer \<Rightarrow> bool" where
  "plots_fit s =
     (int (length (train_loss_history s)) = max 0 (epoch s)
      \<and> (if has_valid s then int (length (valid_loss_history s)) = max 0 (epoch s) else True)
      \<and> (if has_test s then int (length (test_loss_history s)) = max 0 (epoch s) else True))"

section \<open>Properties\<close>

subsection \<open>The batch loops and the phases\<close>

lemma run_calls_log:
  "run_calls b steps lg = (lg', r) \<Longrightarrow> \<exists>new. lg' = lg @ new \<and> set new \<subseteq> snd ` set steps"
proof (induction steps arbitrary: lg)
  case Nil
  then show ?case by simp
next
  case (Cons x steps)
  obtain st c where x: "x = (st, c)" by (cases x)
  show ?case
  proof (cases "raise_at st b")
    case None
    with Cons.prems x have "run_calls b steps (lg @ [c]) = (lg', r)" by simp
    from Cons.IH[OF this] obtain new where "lg' = (lg @ [c]) @ new" "set new \<subseteq> snd ` set steps"
      by blast
    then have "lg' = lg @ (c # new) \<and> set (c # new) \<subseteq> snd ` set (x # steps)"
      using x by auto
    then show ?thesis by blast
  next
    case (Some e)
    with Cons.prems x have "lg' = lg @ [c]" by simp
    then have "lg' = lg @ [c] \<and> set [c] \<subseteq> snd ` set (x # steps)" using x by simp
    then show ?thesis by blast
  qed
qed

lemma run_calls_ok:
  "run_calls b steps lg = (lg', None) \<Longrightarrow> lg' = lg @ map snd steps"
proof (induction steps arbitrary: lg)
  case Nil
  then show ?case by simp
next
  case (Cons x steps)
  obtain st c where x: "x = (st, c)" by (cases x)
  from Cons.prems x have "raise_at st b = None"
    by (cases "raise_at st b") auto
  with Cons.prems x have "run_calls b steps (lg @ [c]) = (lg', None)" by simp
  from Cons.IH[OF this] show ?case using x by simp
qed

lemma batch_loop_log:
  "batch_loop steps bs i nb acc lg = ((nb', acc', lg'), r)
   \<Longrightarrow> \<exists>new. lg' = lg @ new \<and> set new \<subseteq> snd ` set steps"
proof (induction bs arbitrary: i nb acc lg)
  case Nil
  then show ?case by simp
next
  case (Cons b bs)
  show ?case
  proof (cases "raise_at AtFetch b")
    case (Some e)
    with Cons.prems show ?thesis by simp
  next
    case None
    obtain lg1 r1 where rc: "run_calls b steps lg = (lg1, r1)" by (cases "run_calls b steps lg")
    from run_calls_log[OF rc] obtain n1 where n1: "lg1 = lg @ n1" "set n1 \<subseteq> snd ` set steps"
      by blast
    show ?thesis
    proof (cases r1)
      case (Some e)
      with Cons.prems None rc have "lg' = lg1" by simp
      with n1 show ?thesis by blast
    next
      case None': None
      with Cons.prems None rc
      have "batch_loop steps bs (Suc i) (Some i) (acc + loss b) lg1 = ((nb', acc', lg'), r)"
        by simp
      from Cons.IH[OF this] obtain n2 where "lg' = lg1 @ n2" "set n2 \<subseteq> snd ` set steps"
        by blast
      with n1 have "lg' = lg @ (n1 @ n2) \<and> set (n1 @ n2) \<subseteq> snd ` set steps" by simp
      then show ?thesis by blast
    qed
  qed
qed

lemma batch_loop_ok:
  "batch_loop steps bs i nb acc lg = ((nb', acc', lg'), None)
   \<Longrightarrow> acc' = acc + sum_list (map loss bs)
     \<and> nb' = (if bs = [] then nb else Some (i + length bs - 1))
     \<and> lg' = lg @ concat (replicate (length bs) (map snd steps))"
proof (induction bs arbitrary: i nb acc lg)
  case Nil
  then show ?case by simp
next
  case (Cons b bs)
  from Cons.prems have nf: "raise_at AtFetch b = None"
    by (cases "raise_at AtFetch b") auto
  obtain lg1 r1 where rc: "run_calls b steps lg = (lg1, r1)" by (cases "run_calls b steps lg")
  from Cons.prems nf rc have r1: "r1 = None" by (cases r1) auto
  from run_calls_ok rc r1 have lg1: "lg1 = lg @ map snd steps" by simp
  from Cons.prems nf rc r1
  have "batch_loop steps bs (Suc i) (Some i) (acc + loss b) lg1 = ((nb', acc', lg'), None)"
    by simp
  from Cons.IH[OF this] lg1 show ?case by (auto simp: add.assoc)
qed

lemma mean_pass_frame:
  assumes "mean_pass steps src nb s = (s1, nb1, r)"
  shows "durable s1 = durable s \<and> mode s1 = mode s \<and> train_loss s1 = train_loss s
         \<and> val_loss s1 = val_loss s \<and> test_loss s1 = test_loss s
         \<and> (\<exists>new. calls s1 = calls s @ new \<and> set new \<subseteq> snd ` set steps)"
proof -
  obtain nb' acc lg x where bl: "batch_loop steps src 1 nb 0 (calls s) = ((nb', acc, lg), x)"
    by (metis prod_cases3 surj_pair)
  from batch_loop_log[OF bl] obtain new where new: "lg = calls s @ new" "set new \<subseteq> snd ` set steps"
    by blast
  from assms bl have "s1 = s\<lparr>calls := lg\<rparr>"
    by (auto simp: mean_pass_def split: option.splits)
  with new show ?thesis by (auto simp: durable_def config_of_def)
qed

lemma mean_pass_ok:
  assumes "mean_pass steps src nb s = (s1, nb1, Inr m)"
  shows "calls s1 = calls s @ concat (replicate (length src) (map snd steps))
         \<and> (\<exists>n. nb1 = Some n \<and> m = sum_list (map loss src) / real n
                \<and> (src \<noteq> [] \<longrightarrow> n = length src) \<and> (src = [] \<longrightarrow> nb = Some n))"
proof -
  obtain nb' acc lg x where bl: "batch_loop steps src 1 nb 0 (calls s) = ((nb', acc, lg), x)"
    by (metis prod_cases3 surj_pair)
  from assms bl have x: "x = None" by (cases x) (auto simp: mean_pass_def)
  from assms bl x obtain n where n: "nb' = Some n" by (cases nb') (auto simp: mean_pass_def)
  from assms bl x n have r: "s1 = s\<lparr>calls := lg\<rparr>" "nb1 = Some n" "m = acc / real n"
    by (auto simp: mean_pass_def)
  from batch_loop_ok[OF bl[unfolded x]] have
    "acc = sum_list (map loss src)" "nb' = (if src = [] then nb else Some (1 + length src - 1))"
    "lg = calls s @ concat (replicate (length src) (map snd steps))" by auto
  with r n show ?thesis by (auto split: if_splits)
qed

lemma mean_pass_unbound:
  "mean_pass steps [] None s = (s, None, Inl UnboundLocalError)"
  by (simp add: mean_pass_def)

lemma train_phase_frame:
  assumes "train_phase env nb s = (s1, nb1, out)"
  shows "durable s1 = durable s \<and> mode s1 = True
         \<and> val_loss s1 = val_loss s \<and> test_loss s1 = test_loss s
         \<and> (\<exists>new. calls s1 = calls s @ new \<and> set new \<subseteq> snd ` set (train_steps (clip_rate s)))
         \<and> (out = Normal \<or> (\<exists>e. out = Raises TrainPhase e))"
proof -
  obtain t nb' r where mp:
    "mean_pass (train_steps (clip_rate s)) (train_src env) nb (s\<lparr>mode := True\<rparr>) = (t, nb', r)"
    by (metis prod_cases3)
  from mean_pass_frame[OF mp] have t: "durable t = durable s" "mode t = True"
    "val_loss t = val_loss s" "test_loss t = test_loss s"
    "\<exists>new. calls t = calls s @ new \<and> set new \<subseteq> snd ` set (train_steps (clip_rate s))"
    by (auto simp: durable_def config_of_def)
  show ?thesis
  proof (cases r)
    case (Inl e)
    with assms mp have "s1 = t" "out = Raises TrainPhase e" by (auto simp: train_phase_def)
    with t show ?thesis by simp
  next
    case (Inr m)
    with assms mp have "s1 = t\<lparr>train_loss := m\<rparr>" "out = Normal" by (auto simp: train_phase_def)
    with t show ?thesis by (simp add: durable_def config_of_def)
  qed
qed

lemma train_phase_ok:
  assumes "train_phase env nb s = (s1, nb1, Normal)"
  shows "calls s1 = calls s @ concat (replicate (length (train_src env)) (map snd (train_steps (clip_rate s))))
         \<and> (train_src env \<noteq> [] \<longrightarrow>
              train_loss s1 = sum_list (map loss (train_src env)) / real (length (train_src env)))
         \<and> (train_src env \<noteq> [] \<longrightarrow> nb1 = Some (length (train_src env)))
         \<and> (train_src env = [] \<longrightarrow> nb \<noteq> None)"
proof -
  obtain t nb' r where mp:
    "mean_pass (train_steps (clip_rate s)) (train_src env) nb (s\<lparr>mode := True\<rparr>) = (t, nb', r)"
    by (metis prod_cases3)
  from assms mp obtain m where m: "r = Inr m" "s1 = t\<lparr>train_loss := m\<rparr>" "nb1 = nb'"
    by (cases r) (auto simp: train_phase_def)
  from mean_pass_ok[OF mp[unfolded m(1)]] m show ?thesis by auto
qed

lemma train_phase_unbound:
  "train_src env = [] \<Longrightarrow>
   train_phase env None s = (s\<lparr>mode := True\<rparr>, None, Raises TrainPhase UnboundLocalError)"
  by (simp add: train_phase_def mean_pass_unbound)

lemma valid_pass_frame:
  assumes "valid_pass env nb s = (s1, nb1, out)"
  shows "durable s1 = durable s \<and> mode s1 = mode s \<and> train_loss s1 = train_loss s
         \<and> (\<exists>new. calls s1 = calls s @ new \<and> set new \<subseteq> snd ` set eval_steps)
         \<and> (out = Normal \<or> (\<exists>e. out = Raises EvalPhase e))"
proof (cases "has_valid s")
  case False
  with assms show ?thesis by (simp add: valid_pass_def)
next
  case True
  obtain t nb' r where mp: "mean_pass eval_steps (valid_src env) nb s = (t, nb', r)"
    by (metis prod_cases3)
  note t = mean_pass_frame[OF mp]
  show ?thesis
  proof (cases r)
    case (Inl e)
    with assms mp True have "s1 = t" "out = Raises EvalPhase e" by (auto simp: valid_pass_def)
    with t show ?thesis by simp
  next
    case (Inr m)
    with assms mp True have "s1 = t\<lparr>val_loss := m\<rparr>" "out = Normal"
      by (auto simp: valid_pass_def)
    with t show ?thesis by (simp add: durable_def config_of_def)
  qed
qed


lemma test_pass_frame:
  assumes "test_pass env nb s = (s1, nb1, out)"
  shows "durable s1 = durable s \<and> mode s1 = mode s \<and> train_loss s1 = train_loss s
         \<and> (\<exists>new. calls s1 = calls s @ new \<and> set new \<subseteq> snd ` set eval_steps)
         \<and> (out = Normal \<or> (\<exists>e. out = Raises EvalPhase e))"
proof (cases "has_test s")
  case False
  with assms show ?thesis by (simp add: test_pass_def)
next
  case True
  obtain t nb' r where mp: "mean_pass eval_steps (test_src env) nb s = (t, nb', r)"
    by (metis prod_cases3)
  note t = mean_pass_frame[OF mp]
  show ?thesis
  proof (cases r)
    case (Inl e)
    with assms mp True have "s1 = t" "out = Raises EvalPhase e" by (auto simp: test_pass_def)
    with t show ?thesis by simp
  next
    case (Inr m)
    with assms mp True have "s1 = t\<lparr>test_loss := m\<rparr>" "out = Normal"
      by (auto simp: test_pass_def)
    with t show ?thesis by (simp add: durable_def config_of_def)
  qed
qed


lemma eval_phase_frame:
  assumes "eval_phase env nb s = (s2, nb2, out)"
  shows "durable s2 = durable s \<and> train_loss s2 = train_loss s
         \<and> (\<exists>new. calls s2 = calls s @ new \<and> set new \<subseteq> snd ` set eval_steps)
         \<and> (out = Normal \<or> (\<exists>e. out = Raises EvalPhase e))"
proof (cases "has_valid s \<or> has_test s")
  case False
  with assms show ?thesis by (simp add: eval_phase_def)
next
  case True
  obtain s1 nb1 o1 where vp: "valid_pass env nb (s\<lparr>mode := False\<rparr>) = (s1, nb1, o1)"
    by (metis prod_cases3)
  from valid_pass_frame[OF vp] obtain n1 where
    f1: "durable s1 = durable s" "train_loss s1 = train_loss s"
        "calls s1 = calls s @ n1" "set n1 \<subseteq> snd ` set eval_steps"
        "o1 = Normal \<or> (\<exists>e. o1 = Raises EvalPhase e)"
    by (auto simp: durable_def config_of_def)
  show ?thesis
  proof (cases o1)
    case (Raises ph e)
    with assms vp True have "s2 = s1" "out = o1" by (auto simp: eval_phase_def)
    with f1 show ?thesis by simp
  next
    case Normal
    with assms vp True have tp: "test_pass env nb1 s1 = (s2, nb2, out)"
      by (auto simp: eval_phase_def)
    from test_pass_frame[OF tp] obtain n2 where
      f2: "durable s2 = durable s1" "train_loss s2 = train_loss s1"
          "calls s2 = calls s1 @ n2" "set n2 \<subseteq> snd ` set eval_steps"
          "out = Normal \<or> (\<exists>e. out = Raises EvalPhase e)"
      by auto
    from f1 f2 have "calls s2 = calls s @ (n1 @ n2) \<and> set (n1 @ n2) \<subseteq> snd ` set eval_steps"
      by simp
    then have "\<exists>new. calls s2 = calls s @ new \<and> set new \<subseteq> snd ` set eval_steps" by blast
    with f1 f2 show ?thesis by simp
  qed
qed


subsection \<open>The commit, its retry and the \<open>finally\<close> suite\<close>

lemma try_save_uninterrupted:
  "try_save_loss_history None s =
     (s\<lparr>train_loss_history := train_loss_history s @ [train_loss s],
        valid_loss_history :=
          (if has_valid s then valid_loss_history s @ [val_loss s] else valid_loss_history s),
        test_loss_history :=
          (if has_test s then test_loss_history s @ [test_loss s] else test_loss_history s)\<rparr>,
      None)"
  by (simp add: try_save_loss_history_def Let_def)

lemma try_save_raises:
  "try_save_loss_history (Some p) s = (s1, r) \<Longrightarrow> r = Some KeyboardInterrupt"
  by (cases p) (auto simp: try_save_loss_history_def Let_def)

lemma retry_after_cancel:
  assumes "history_inv s" and "has_valid s \<or> \<not> has_test s"
  shows "retry_save_loss_history (fst (try_save_loss_history (Some p) s))
         = fst (try_save_loss_history None s)"
proof -
  from assms(1) have len:
    "int (length (train_loss_history s)) = epoch s - 1"
    "length (valid_loss_history s) = (if has_valid s then length (train_loss_history s) else 0)"
    "length (test_loss_history s) = (if has_test s then length (train_loss_history s) else 0)"
    by (simp_all add: history_inv_def)
  show ?thesis
  proof (cases p)
    case BeforeTrainAppend
    with len assms(2) show ?thesis
      by (cases "has_valid s"; cases "has_test s";
          simp add: try_save_loss_history_def retry_save_loss_history_def Let_def)
  next
    case BeforeValidAppend
    with len assms(2) show ?thesis
      by (cases "has_valid s"; cases "has_test s";
          simp add: try_save_loss_history_def retry_save_loss_history_def Let_def)
  next
    case BeforeTestAppend
    with len assms(2) show ?thesis
      by (cases "has_valid s"; cases "has_test s";
          simp add: try_save_loss_history_def retry_save_loss_history_def Let_def)
  next
    case BeforeReturn
    with len assms(2) show ?thesis
      by (cases "has_valid s"; cases "has_test s";
          simp add: try_save_loss_history_def retry_save_loss_history_def Let_def)
  qed
qed

lemma calc_timing_stats_ok:
  "now \<noteq> time_stamp s \<Longrightarrow>
   calc_timing_stats now s =
     (s\<lparr>time_stamp := now, time_elapsed := time_elapsed s + (now - time_stamp s),
        speed := 1 / (now - time_stamp s)\<rparr>, None)"
  by (simp add: calc_timing_stats_def Let_def)

lemma draw_info_state: "fst (draw_info flt s) = s\<lparr>calls := calls s @ [DrawInfo]\<rparr>"
  by (simp add: draw_info_def Let_def split: option.splits)

lemma draw_info_result: "snd (draw_info flt s) = (if plots_fit s then flt else Some ValueError)"
  by (simp add: draw_info_def plot_def plots_fit_def Let_def)

lemma calc_timing_stats_plots:
  "now \<noteq> time_stamp s \<Longrightarrow> plots_fit (fst (calc_timing_stats now s)) = plots_fit s"
  by (simp add: calc_timing_stats_ok plots_fit_def)

lemma finally_suite_ok:
  assumes "clock env \<noteq> time_stamp s" and "draw_fault env = None" and "plots_fit s"
  shows "finally_suite env s =
     (s\<lparr>time_stamp := clock env, time_elapsed := time_elapsed s + (clock env - time_stamp s),
        speed := 1 / (clock env - time_stamp s), calls := calls s @ [DrawInfo],
        epoch := epoch s + 1\<rparr>, None)"
proof -
  let ?t = "s\<lparr>time_stamp := clock env, time_elapsed := time_elapsed s + (clock env - time_stamp s),
        speed := 1 / (clock env - time_stamp s)\<rparr>"
  from assms(3) have "plots_fit ?t" by (simp add: plots_fit_def)
  with assms(2) have "draw_info (draw_fault env) ?t = (?t\<lparr>calls := calls ?t @ [DrawInfo]\<rparr>, None)"
    using draw_info_state[of None ?t] draw_info_result[of None ?t]
    by (simp add: prod_eq_iff)
  with assms(1) show ?thesis
    by (simp add: finally_suite_def calc_timing_stats_ok)
qed



lemma finally_suite_frame:
  assumes "finally_suite env s = (s', r)"
  shows "config_of s' = config_of s \<and> mode s' = mode s \<and> completed s' = completed s
         \<and> train_loss_history s' = train_loss_history s
         \<and> valid_loss_history s' = valid_loss_history s
         \<and> test_loss_history s' = test_loss_history s
         \<and> train_loss s' = train_loss s
         \<and> epoch s' = (if r = None then epoch s + 1 else epoch s)
         \<and> filter is_clip (calls s') = filter is_clip (calls s)"
proof (cases "clock env = time_stamp s")
  case True
  with assms have "s' = s\<lparr>time_stamp := clock env, time_elapsed := time_elapsed s + (clock env - time_stamp s)\<rparr>"
     "r = Some ZeroDivisionError"
    by (simp_all add: finally_suite_def calc_timing_stats_def Let_def)
  then show ?thesis by (simp add: config_of_def)
next
  case False
  let ?t = "s\<lparr>time_stamp := clock env, time_elapsed := time_elapsed s + (clock env - time_stamp s),
        speed := 1 / (clock env - time_stamp s)\<rparr>"
  obtain u x where d: "draw_info (draw_fault env) ?t = (u, x)"
    by (cases "draw_info (draw_fault env) ?t")
  with draw_info_state[of "draw_fault env" ?t] have u: "u = ?t\<lparr>calls := calls ?t @ [DrawInfo]\<rparr>"
    by simp
  show ?thesis
  proof (cases x)
    case None
    with assms False d have "s' = u\<lparr>epoch := epoch u + 1\<rparr>" "r = None"
      by (simp_all add: finally_suite_def calc_timing_stats_ok)
    with u show ?thesis by (simp add: config_of_def)
  next
    case (Some e)
    with assms False d have "s' = u" "r = Some e"
      by (simp_all add: finally_suite_def calc_timing_stats_ok)
    with u show ?thesis by (simp add: config_of_def)
  qed
qed

lemma try_save_frame:
  "config_of (fst (try_save_loss_history c s)) = config_of s
   \<and> mode (fst (try_save_loss_history c s)) = mode s
   \<and> epoch (fst (try_save_loss_history c s)) = epoch s
   \<and> completed (fst (try_save_loss_history c s)) = completed s
   \<and> time_elapsed (fst (try_save_loss_history c s)) = time_elapsed s
   \<and> time_stamp (fst (try_save_loss_history c s)) = time_stamp s
   \<and> calls (fst (try_save_loss_history c s)) = calls s
   \<and> train_loss (fst (try_save_loss_history c s)) = train_loss s"
  by (simp add: try_save_loss_history_def Let_def config_of_def)

lemma retry_save_frame:
  "config_of (retry_save_loss_history s) = config_of s
   \<and> mode (retry_save_loss_history s) = mode s
   \<and> epoch (retry_save_loss_history s) = epoch s
   \<and> completed (retry_save_loss_history s) = completed s
   \<and> time_elapsed (retry_save_loss_history s) = time_elapsed s
   \<and> time_stamp (retry_save_loss_history s) = time_stamp s
   \<and> calls (retry_save_loss_history s) = calls s
   \<and> train_loss (retry_save_loss_history s) = train_loss s"
  by (simp add: retry_save_loss_history_def Let_def config_of_def)



lemma commit_phase_eq:
  "commit_phase env s =
     (case finally_suite env (committed env s) of
        (s', Some e) \<Rightarrow> (s', Raises TimingPhase e)
      | (s', None) \<Rightarrow>
          (s', if commit_cancel env = None then Normal else Raises CommitPhase KeyboardInterrupt))"
proof (cases "commit_cancel env")
  case None
  then show ?thesis
    by (simp add: commit_phase_def committed_def try_save_uninterrupted split: prod.splits option.splits)
next
  case (Some p)
  obtain s1 r where ts: "try_save_loss_history (Some p) s = (s1, r)" by (cases "try_save_loss_history (Some p) s")
  from try_save_raises[OF ts] have r: "r = Some KeyboardInterrupt" .
  from try_save_frame[of "Some p" s] ts have "initial_mode s1 = initial_mode s"
    by (simp add: config_of_def)
  with Some ts r show ?thesis
    by (simp add: commit_phase_def committed_def split: prod.splits option.splits)
qed

lemma committed_frame:
  "config_of (committed env s) = config_of s
   \<and> epoch (committed env s) = epoch s
   \<and> completed (committed env s) = completed s
   \<and> time_elapsed (committed env s) = time_elapsed s
   \<and> time_stamp (committed env s) = time_stamp s
   \<and> calls (committed env s) = calls s
   \<and> mode (committed env s) = (if commit_cancel env = None then mode s else initial_mode s)"
proof (cases "commit_cancel env")
  case None
  with try_save_frame[of None s] show ?thesis by (simp add: committed_def)
next
  case (Some p)
  with try_save_frame[of "Some p" s]
       retry_save_frame[of "fst (try_save_loss_history (Some p) s)"]
  show ?thesis by (simp add: committed_def config_of_def)
qed


lemma committed_histories:
  assumes "history_inv s" and "commit_cancel env = None \<or> has_valid s \<or> \<not> has_test s"
  shows "train_loss_history (committed env s) = train_loss_history s @ [train_loss s]
         \<and> valid_loss_history (committed env s) =
             (if has_valid s then valid_loss_history s @ [val_loss s] else valid_loss_history s)
         \<and> test_loss_history (committed env s) =
             (if has_test s then test_loss_history s @ [test_loss s] else test_loss_history s)"
proof (cases "commit_cancel env")
  case None
  then show ?thesis by (simp add: committed_def try_save_uninterrupted)
next
  case (Some p)
  with assms(2) have "has_valid s \<or> \<not> has_test s" by simp
  from retry_after_cancel[OF assms(1) this, of p] Some show ?thesis
    by (simp add: committed_def try_save_uninterrupted)
qed

subsection \<open>One epoch\<close>

lemma run_epoch_cases:
  assumes "run_epoch env nb s = (s', nb', out)"
  obtains
    (train) e where "train_phase env nb s = (s', nb', Raises TrainPhase e)"
      and "out = Raises TrainPhase e"
  | (eval) s1 nb1 e where "train_phase env nb s = (s1, nb1, Normal)"
      and "eval_phase env nb1 s1 = (s', nb', Raises EvalPhase e)" and "out = Raises EvalPhase e"
  | (commit) s1 nb1 s2 where "train_phase env nb s = (s1, nb1, Normal)"
      and "eval_phase env nb1 s1 = (s2, nb', Normal)" and "commit_phase env s2 = (s', out)"
proof -
  obtain s1 nb1 o1 where tp: "train_phase env nb s = (s1, nb1, o1)" by (metis prod_cases3)
  from train_phase_frame[OF tp] have o1: "o1 = Normal \<or> (\<exists>e. o1 = Raises TrainPhase e)" by simp
  show thesis
  proof (cases o1)
    case (Raises ph e)
    with o1 have "ph = TrainPhase" by simp
    with Raises tp assms have "train_phase env nb s = (s', nb', Raises TrainPhase e)"
      "out = Raises TrainPhase e" by (auto simp: run_epoch_def)
    then show thesis by (rule train)
  next
    case Normal
    obtain s2 nb2 o2 where ep: "eval_phase env nb1 s1 = (s2, nb2, o2)" by (metis prod_cases3)
    from eval_phase_frame[OF ep] have o2: "o2 = Normal \<or> (\<exists>e. o2 = Raises EvalPhase e)" by simp
    show thesis
    proof (cases o2)
      case (Raises ph e)
      with o2 have "ph = EvalPhase" by simp
      with Raises Normal tp ep assms have "eval_phase env nb1 s1 = (s', nb', Raises EvalPhase e)"
        "out = Raises EvalPhase e" by (auto simp: run_epoch_def)
      with tp Normal show thesis by (auto intro: eval)
    next
      case Normal2: Normal
      with Normal tp ep assms have "commit_phase env s2 = (s', out)" "nb' = nb2"
        by (auto simp: run_epoch_def split: prod.splits)
      with tp ep Normal Normal2 show thesis by (auto intro: commit)
    qed
  qed
qed

lemma commit_phase_cases:
  assumes "commit_phase env s = (s', out)"
  obtains
    (timing) e where "finally_suite env (committed env s) = (s', Some e)"
      and "out = Raises TimingPhase e"
  | (finished) "finally_suite env (committed env s) = (s', None)"
      and "out = (if commit_cancel env = None then Normal else Raises CommitPhase KeyboardInterrupt)"
proof -
  obtain t r where fs: "finally_suite env (committed env s) = (t, r)" by (cases "finally_suite env (committed env s)")
  show thesis
  proof (cases r)
    case None
    with fs assms have "s' = t"
      "out = (if commit_cancel env = None then Normal else Raises CommitPhase KeyboardInterrupt)"
      by (simp_all add: commit_phase_eq)
    with fs None show thesis by (auto intro: finished)
  next
    case (Some e)
    with fs assms have "s' = t" "out = Raises TimingPhase e" by (simp_all add: commit_phase_eq)
    with fs Some show thesis by (auto intro: timing)
  qed
qed

lemma commit_phase_frame:
  assumes "commit_phase env s = (s', out)"
  shows "config_of s' = config_of s \<and> completed s' = completed s
         \<and> epoch s \<le> epoch s' \<and> epoch s' \<le> epoch s + 1
         \<and> (out = Normal \<longrightarrow> epoch s' = epoch s + 1 \<and> mode s' = mode s)
         \<and> (out = Raises CommitPhase KeyboardInterrupt \<longrightarrow>
               epoch s' = epoch s + 1 \<and> mode s' = initial_mode s)
         \<and> filter is_clip (calls s') = filter is_clip (calls s)
         \<and> reaches_commit out"
  using assms
proof (cases rule: commit_phase_cases)
  case (timing e)
  from finally_suite_frame[OF timing(1)] committed_frame[of env s] timing(2)
  show ?thesis by simp
next
  case finished
  from finally_suite_frame[OF finished(1)] committed_frame[of env s] finished(2)
  show ?thesis by simp
qed



lemma committed_plots_fit:
  assumes "history_inv s" and "commit_cancel env = None \<or> has_valid s \<or> \<not> has_test s"
  shows "plots_fit (committed env s)"
proof -
  from assms(1) have len: "int (length (train_loss_history s)) = epoch s - 1"
    "length (valid_loss_history s) = (if has_valid s then length (train_loss_history s) else 0)"
    "length (test_loss_history s) = (if has_test s then length (train_loss_history s) else 0)"
    by (simp_all add: history_inv_def)
  from committed_frame[of env s] have f: "has_valid (committed env s) = has_valid s"
    "has_test (committed env s) = has_test s" "epoch (committed env s) = epoch s"
    by (simp_all add: config_of_def)
  from committed_histories[OF assms, of ] len f show ?thesis
    by (simp add: plots_fit_def)
qed

lemma commit_phase_cancelled:
  assumes "commit_cancel env = Some p" and "history_inv s" and "has_valid s \<or> \<not> has_test s"
    and "clock env \<noteq> time_stamp s" and "draw_fault env = None"
  shows "\<exists>s'. commit_phase env s = (s', Raises CommitPhase KeyboardInterrupt)
           \<and> epoch s' = epoch s + 1
           \<and> time_elapsed s' = time_elapsed s + (clock env - time_stamp s)
           \<and> time_stamp s' = clock env
           \<and> calls s' = calls s @ [DrawInfo]
           \<and> mode s' = initial_mode s"
proof -
  from committed_frame[of env s] assms(1,4) have ts: "clock env \<noteq> time_stamp (committed env s)"
    by simp
  from assms(3) have "commit_cancel env = None \<or> has_valid s \<or> \<not> has_test s" by simp
  from committed_plots_fit[OF assms(2) this] have pf: "plots_fit (committed env s)" .
  from finally_suite_ok[OF ts assms(5) pf] committed_frame[of env s] assms(1)
  show ?thesis by (simp add: commit_phase_eq)
qed


lemma no_report_in_steps:
  "DrawInfo \<notin> snd ` set (train_steps clip)" "DrawInfo \<notin> snd ` set eval_steps"
  by (auto simp: train_steps_def eval_steps_def split: option.splits)

lemma no_clip_in_steps:
  "c \<in> snd ` set (train_steps None) \<Longrightarrow> \<not> is_clip c"
  "c \<in> snd ` set eval_steps \<Longrightarrow> \<not> is_clip c"
  by (auto simp: train_steps_def eval_steps_def)

lemma filter_none: "(\<And>x. x \<in> set xs \<Longrightarrow> \<not> P x) \<Longrightarrow> filter P xs = []"
  by (induction xs) auto

lemma train_phase_quiet:
  assumes "train_phase env nb s = (s1, nb1, out)"
  shows "reports s1 = reports s
         \<and> (clip_rate s = None \<longrightarrow> filter is_clip (calls s1) = filter is_clip (calls s))"
proof -
  from train_phase_frame[OF assms] obtain new where
    new: "calls s1 = calls s @ new" "set new \<subseteq> snd ` set (train_steps (clip_rate s))" by blast
  from new(2) no_report_in_steps(1) have "filter (\<lambda>c. c = DrawInfo) new = []"
    by (intro filter_none) blast
  moreover have "filter is_clip new = []" if "clip_rate s = None"
    using new(2) that no_clip_in_steps(1) by (intro filter_none) auto
  ultimately show ?thesis using new(1) by (simp add: reports_def)
qed

lemma eval_phase_quiet:
  assumes "eval_phase env nb s = (s1, nb1, out)"
  shows "reports s1 = reports s \<and> filter is_clip (calls s1) = filter is_clip (calls s)"
proof -
  from eval_phase_frame[OF assms] obtain new where
    new: "calls s1 = calls s @ new" "set new \<subseteq> snd ` set eval_steps" by blast
  from new(2) no_report_in_steps(2) have "filter (\<lambda>c. c = DrawInfo) new = []"
    by (intro filter_none) blast
  moreover have "filter is_clip new = []"
    using new(2) no_clip_in_steps(2) by (intro filter_none) auto
  ultimately show ?thesis using new(1) by (simp add: reports_def)
qed

lemma run_epoch_frame:
  assumes "run_epoch env nb s = (s', nb', out)"
  shows "config_of s' = config_of s \<and> completed s' = completed s
         \<and> epoch s \<le> epoch s' \<and> epoch s' \<le> epoch s + 1
         \<and> (out = Normal \<longrightarrow> epoch s' = epoch s + 1)
         \<and> (out = Raises CommitPhase KeyboardInterrupt \<longrightarrow> mode s' = initial_mode s)
         \<and> (clip_rate s = None \<longrightarrow> filter is_clip (calls s') = filter is_clip (calls s))"
  using assms
proof (cases rule: run_epoch_cases)
  case (train e)
  from train_phase_frame[OF train(1)] train_phase_quiet[OF train(1)] train(2)
  show ?thesis by (simp add: durable_def)
next
  case (eval s1 nb1 e)
  from train_phase_frame[OF eval(1)] train_phase_quiet[OF eval(1)]
       eval_phase_frame[OF eval(2)] eval_phase_quiet[OF eval(2)] eval(3)
  show ?thesis by (simp add: durable_def)
next
  case (commit s1 nb1 s2)
  from train_phase_frame[OF commit(1)] train_phase_quiet[OF commit(1)]
       eval_phase_frame[OF commit(2)] eval_phase_quiet[OF commit(2)]
       commit_phase_frame[OF commit(3)]
  show ?thesis by (simp add: durable_def config_of_def)
qed

lemma run_epoch_before_commit:
  assumes "run_epoch env nb s = (s', nb', Raises ph e)" and "ph = TrainPhase \<or> ph = EvalPhase"
  shows "durable s' = durable s \<and> reports s' = reports s"
  using assms(1)
proof (cases rule: run_epoch_cases)
  case (train e')
  from train_phase_frame[OF train(1)] train_phase_quiet[OF train(1)] show ?thesis by simp
next
  case (eval s1 nb1 e')
  from train_phase_frame[OF eval(1)] train_phase_quiet[OF eval(1)]
       eval_phase_frame[OF eval(2)] eval_phase_quiet[OF eval(2)]
  show ?thesis by simp
next
  case (commit s1 nb1 s2)
  from commit_phase_frame[OF commit(3)] assms(2) show ?thesis by auto
qed

lemma durable_inv: "durable s' = durable s \<Longrightarrow> history_inv s' = history_inv s"
  by (simp add: durable_def history_inv_def config_of_def)



lemma run_epoch_cancelled:
  assumes "run_epoch env nb s = (s', nb', out)" and "reaches_commit out"
    and "commit_cancel env = Some p" and "clock env \<noteq> time_stamp s" and "draw_fault env = None"
    and "history_inv s" and "has_valid s \<or> \<not> has_test s"
  shows "out = Raises CommitPhase KeyboardInterrupt
         \<and> epoch s' = epoch s + 1
         \<and> time_elapsed s' = time_elapsed s + (clock env - time_stamp s)
         \<and> time_stamp s' = clock env
         \<and> reports s' = reports s + 1"
  using assms(1)
proof (cases rule: run_epoch_cases)
  case (train e)
  with assms(2) show ?thesis by simp
next
  case (eval s1 nb1 e)
  with assms(2) show ?thesis by simp
next
  case (commit s1 nb1 s2)
  from train_phase_frame[OF commit(1)] eval_phase_frame[OF commit(2)]
  have d: "durable s2 = durable s" by simp
  from train_phase_quiet[OF commit(1)] eval_phase_quiet[OF commit(2)]
  have r: "reports s2 = reports s" by simp
  from d assms(4) have ck: "clock env \<noteq> time_stamp s2" by (simp add: durable_def)
  from durable_inv[OF d] assms(6) have i2: "history_inv s2" by simp
  from d assms(7) have c2: "has_valid s2 \<or> \<not> has_test s2"
    by (simp add: durable_def config_of_def)
  from commit_phase_cancelled[OF assms(3) i2 c2 ck assms(5)] commit(3) d r
  show ?thesis by (auto simp: durable_def reports_def)
qed


subsection \<open>The epoch loop and \<open>train\<close>\<close>

lemma epoch_loop_frame:
  "epoch_loop envs i k nb s = (s', out) \<Longrightarrow>
   config_of s' = config_of s \<and> completed s' = completed s
   \<and> epoch s \<le> epoch s' \<and> epoch s' \<le> epoch s + int k
   \<and> (out = Normal \<longrightarrow> epoch s' = epoch s + int k)"
proof (induction k arbitrary: i nb s)
  case 0
  then show ?case by simp
next
  case (Suc k)
  obtain s1 nb1 o1 where re: "run_epoch (envs i) nb s = (s1, nb1, o1)" by (metis prod_cases3)
  note f = run_epoch_frame[OF re]
  show ?case
  proof (cases o1)
    case (Raises ph e)
    with Suc.prems re have "s' = s1" "out = Raises ph e" by simp_all
    with f show ?thesis by simp
  next
    case Normal
    with Suc.prems re have "epoch_loop envs (Suc i) k nb1 s1 = (s', out)" by simp
    from Suc.IH[OF this] f Normal show ?thesis by simp
  qed
qed

lemma epoch_loop_mode:
  "epoch_loop envs i k nb s = (s', Raises CommitPhase KeyboardInterrupt) \<Longrightarrow>
   mode s' = initial_mode s"
proof (induction k arbitrary: i nb s)
  case 0
  then show ?case by simp
next
  case (Suc k)
  obtain s1 nb1 o1 where re: "run_epoch (envs i) nb s = (s1, nb1, o1)" by (metis prod_cases3)
  note f = run_epoch_frame[OF re]
  show ?case
  proof (cases o1)
    case (Raises ph e)
    with Suc.prems re have "s' = s1" "o1 = Raises CommitPhase KeyboardInterrupt" by simp_all
    with f show ?thesis by simp
  next
    case Normal
    with Suc.prems re
    have "epoch_loop envs (Suc i) k nb1 s1 = (s', Raises CommitPhase KeyboardInterrupt)" by simp
    from Suc.IH[OF this] f show ?thesis by (simp add: config_of_def)
  qed
qed



lemma train_cases:
  assumes "train env s = (s', out)"
  obtains
    (returns) t where
      "epoch_loop (epochs env) 0 (nat (n_epochs s + 1 - epoch s)) None
         (s\<lparr>time_stamp := start_clock env\<rparr>) = (t, Normal)"
      and "s' = t\<lparr>completed := True, mode := initial_mode t\<rparr>" and "out = Normal"
  | (raises) ph e where
      "epoch_loop (epochs env) 0 (nat (n_epochs s + 1 - epoch s)) None
         (s\<lparr>time_stamp := start_clock env\<rparr>) = (s', Raises ph e)"
      and "out = Raises ph e"
proof -
  obtain t o1 where el:
    "epoch_loop (epochs env) 0 (nat (n_epochs s + 1 - epoch s)) None
       (s\<lparr>time_stamp := start_clock env\<rparr>) = (t, o1)"
    by (cases "epoch_loop (epochs env) 0 (nat (n_epochs s + 1 - epoch s)) None
         (s\<lparr>time_stamp := start_clock env\<rparr>)")
  show thesis
  proof (cases o1)
    case Normal
    with el assms have "s' = t\<lparr>completed := True, mode := initial_mode t\<rparr>" "out = Normal"
      by (simp_all add: train_def)
    with el Normal show thesis by (auto intro: returns)
  next
    case (Raises ph e)
    with el assms have "s' = t" "out = Raises ph e" by (simp_all add: train_def)
    with el Raises show thesis by (auto intro: raises)
  qed
qed

lemma train_frame:
  assumes "train env s = (s', out)"
  shows "config_of s' = config_of s
         \<and> completed s' = (if out = Normal then True else completed s)
         \<and> epoch s \<le> epoch s' \<and> epoch s' \<le> max (epoch s) (n_epochs s + 1)
         \<and> (out = Normal \<longrightarrow> epoch s' = max (epoch s) (n_epochs s + 1))"
  using assms
proof (cases rule: train_cases)
  case (returns t)
  from epoch_loop_frame[OF returns(1)] returns(3)
  have "config_of t = config_of s \<and> completed t = completed s
        \<and> epoch t = max (epoch s) (n_epochs s + 1) \<and> out = Normal"
    by (simp add: config_of_def max_def)
  with returns(2) show ?thesis by (simp add: config_of_def)
next
  case (raises ph e)
  from epoch_loop_frame[OF raises(1)] raises(2)
  have "config_of s' = config_of s \<and> completed s' = completed s
        \<and> epoch s \<le> epoch s' \<and> epoch s' \<le> max (epoch s) (n_epochs s + 1) \<and> out \<noteq> Normal"
    by (simp add: config_of_def max_def split: if_splits)
  then show ?thesis by simp
qed

lemma train_mode:
  assumes "train env s = (s', out)" and "out = Normal \<or> out = Raises CommitPhase KeyboardInterrupt"
  shows "mode s' = initial_mode s"
  using assms(1)
proof (cases rule: train_cases)
  case (returns t)
  from epoch_loop_frame[OF returns(1)] returns(2) show ?thesis by (simp add: config_of_def)
next
  case (raises ph e)
  with assms(2) have "epoch_loop (epochs env) 0 (nat (n_epochs s + 1 - epoch s)) None
         (s\<lparr>time_stamp := start_clock env\<rparr>) = (s', Raises CommitPhase KeyboardInterrupt)" by simp
  from epoch_loop_mode[OF this] show ?thesis by simp
qed


text \<open>What holds of every reachable state.\<close>

lemma reachable_completed:
  "reachable s \<Longrightarrow> completed s \<longrightarrow> n_epochs s < epoch s"
proof (induction rule: reachable.induct)
  case (reach_init network_training test_given valid_given n c)
  then show ?case by (simp add: init_def)
next
  case (reach_clear s)
  then show ?case by (simp add: clear_history_def)
next
  case (reach_train s env s' out)
  from train_frame[OF reach_train(2)] reach_train(3) show ?case
    by (cases "out = Normal") (auto simp: config_of_def)
qed

lemma reachable_epoch:
  "reachable s \<Longrightarrow> 1 \<le> epoch s \<and> epoch s \<le> max 1 (n_epochs s + 1)"
proof (induction rule: reachable.induct)
  case (reach_init network_training test_given valid_given n c)
  then show ?case by (simp add: init_def)
next
  case (reach_clear s)
  then show ?case by (simp add: clear_history_def)
next
  case (reach_train s env s' out)
  from train_frame[OF reach_train(2)] reach_train(3) show ?case
    by (auto simp: config_of_def)
qed

subsection \<open>The copy made by an accessor\<close>

lemma list_copy_ref: "fst (list_copy a h) = next_ref h"
  by (simp add: list_copy_def)

lemma list_copy_next: "next_ref (snd (list_copy a h)) = Suc (next_ref h)"
  by (simp add: list_copy_def)

lemma list_copy_cells:
  "cells (snd (list_copy a h)) b = (if b = next_ref h then cells h a else cells h b)"
  by (simp add: list_copy_def)

lemma list_mutate_cells:
  "cells (list_mutate r f h) b = (if b = r then f (cells h r) else cells h b)"
  by (simp add: list_mutate_def)

lemma copy_isolated:
  assumes "allocated ob h" and "a < next_ref h"
  shows "case list_copy a h of (r, h1) \<Rightarrow>
           cells h1 r = cells h a \<and> view ob (list_mutate r f h1) = view ob h
           \<and> (case list_copy a h1 of (r2, h2) \<Rightarrow>
                 r2 \<noteq> r \<and> cells h2 r2 = cells h2 r \<and> view ob h2 = view ob h)"
proof -
  from assms(1) have al: "train_history_ref ob < next_ref h" "valid_history_ref ob < next_ref h"
    "test_history_ref ob < next_ref h" by (simp_all add: allocated_def)
  obtain r h1 where c1: "list_copy a h = (r, h1)" by (cases "list_copy a h")
  obtain r2 h2 where c2: "list_copy a h1 = (r2, h2)" by (cases "list_copy a h1")
  from c1 list_copy_ref[of a h] have r: "r = next_ref h" by simp
  from c1 list_copy_next[of a h] have n1: "next_ref h1 = Suc (next_ref h)" by simp
  from c1 list_copy_cells[of a h] have k1:
    "\<And>b. cells h1 b = (if b = next_ref h then cells h a else cells h b)" by simp
  from c2 list_copy_ref[of a h1] n1 have r2: "r2 = Suc (next_ref h)" by simp
  from c2 list_copy_cells[of a h1] n1 have k2:
    "\<And>b. cells h2 b = (if b = Suc (next_ref h) then cells h1 a else cells h1 b)" by simp
  have "cells h1 r = cells h a" using r k1 by simp
  moreover have "view ob (list_mutate r f h1) = view ob h"
    using al r k1 by (simp add: view_def list_mutate_cells)
  moreover have "r2 \<noteq> r" using r r2 by simp
  moreover have "cells h2 r2 = cells h2 r" using r r2 k1 k2 assms(2) by simp
  moreover have "view ob h2 = view ob h" using al k1 k2 by (simp add: view_def)
  ultimately show ?thesis using c1 c2 by simp
qed

subsection \<open>Running the model\<close>

text \<open>The definitions unfolded to run the model on a concrete input.\<close>

lemmas run_simps =
  train_def run_epoch_def train_phase_def eval_phase_def valid_pass_def test_pass_def
  mean_pass_def commit_phase_def finally_suite_def calc_timing_stats_def draw_info_def plot_def
  try_save_loss_history_def retry_save_loss_history_def train_steps_def eval_steps_def
  init_def steady_run_def quiet_epoch_def plain_batch_def cancelled_run_def
  draw_cancelled_run_def faulty_run_def faulty_epoch_def faulty_batch_def drained_run_def
  history_inv_def history_lengths_def reports_def Let_def eval_nat_numeral

subsection \<open>The claims\<close>

text \<open>
  C1, idempotent interrupted commit. The claim is that for every configuration of
  validation and test sources and every point of the commit at which a cancellation
  arrives, the retried commit leaves the three histories as long as an uninterrupted
  commit would. The lemma \<open>retry_after_cancel\<close> above shows this (even the same state)
  whenever a validation source is configured or no test source is. With a test source and
  no validation source the retry compares the test history with the empty validation
  history and drops the test entry: the run below, cancelled before the first append, ends
  with history lengths \<open>(1, 0, 0)\<close>, the uninterrupted run with \<open>(1, 0, 1)\<close>. (The report
  then fails on the short test history, so the call ends with the \<open>ValueError\<close> of the plot.)
\<close>

theorem retry_drops_test_entry:
  "history_lengths
     (retry_save_loss_history
        (fst (try_save_loss_history (Some BeforeTrainAppend)
                ((init False True False 1 None)\<lparr>train_loss := 2, test_loss := 3\<rparr>))))
     = (1, 0, 0)
   \<and> history_lengths
        (fst (try_save_loss_history None
                ((init False True False 1 None)\<lparr>train_loss := 2, test_loss := 3\<rparr>)))
     = (1, 0, 1)
   \<and> snd (train (cancelled_run [2] [] [3] BeforeTrainAppend) (init False True False 1 None))
     = Raises TimingPhase ValueError
   \<and> history_lengths
        (fst (train (cancelled_run [2] [] [3] BeforeTrainAppend) (init False True False 1 None)))
     = (1, 0, 0)
   \<and> snd (train (steady_run [2] [] [3]) (init False True False 1 None)) = Normal
   \<and> history_lengths (fst (train (steady_run [2] [] [3]) (init False True False 1 None)))
     = (1, 0, 1)"
  by (simp add: run_simps)

text \<open>
  C2, mode restoration, as amended: when \<open>train\<close> returns normally, and when a cancellation
  that arrived during the commit propagates out of \<open>train\<close>, the mode flag of the network
  equals \<open>initial_mode\<close>, which is still the flag captured at construction. (A cancellation
  that arrives in the training or the evaluation pass, or in the timing and report step,
  propagates with the mode flag as that phase left it.)
\<close>

theorem mode_restored:
  assumes "train env s = (s', out)"
    and "out = Normal \<or> out = Raises CommitPhase KeyboardInterrupt"
  shows "mode s' = initial_mode s' \<and> initial_mode s' = initial_mode s"
  using train_mode[OF assms] train_frame[OF assms(1)] by (simp add: config_of_def)

theorem mode_restored_witness:
  "snd (train (cancelled_run [2] [5] [] BeforeValidAppend) (init False False True 2 None))
     = Raises CommitPhase KeyboardInterrupt
   \<and> mode (fst (train (cancelled_run [2] [5] [] BeforeValidAppend) (init False False True 2 None)))
     = initial_mode
         (fst (train (cancelled_run [2] [5] [] BeforeValidAppend) (init False False True 2 None)))
   \<and> initial_mode
        (fst (train (cancelled_run [2] [5] [] BeforeValidAppend) (init False False True 2 None)))
     = False"
proof -
  let ?r = "train (cancelled_run [2] [5] [] BeforeValidAppend) (init False False True 2 None)"
  have o: "snd ?r = Raises CommitPhase KeyboardInterrupt" by (simp add: run_simps)
  have "?r = (fst ?r, snd ?r)" by simp
  from mode_restored[OF this] o show ?thesis by (simp add: init_def)
qed

text \<open>
  The claim as stated fails: a cancellation raised by the forward call of the first batch
  leaves a network constructed in evaluation mode in training mode.
\<close>

theorem mode_not_restored_counterexample:
  "snd (train (faulty_run AtForward KeyboardInterrupt) (init False False False 1 None))
     = Raises TrainPhase KeyboardInterrupt
   \<and> mode (fst (train (faulty_run AtForward KeyboardInterrupt) (init False False False 1 None)))
     \<noteq> initial_mode
          (fst (train (faulty_run AtForward KeyboardInterrupt) (init False False False 1 None)))"
  by (simp add: run_simps)

text \<open>
  C3, the asymmetry of the \<open>finally\<close> contract. The claim is that after a cancellation
  during the commit the timing update, the report and the increment of the epoch counter
  still run before the cancellation propagates, while an exception of the training pass
  propagates with none of them run and no history touched. The second half holds for
  every exception (lemma \<open>run_epoch_before_commit\<close>), and so does the first half when a
  validation source is configured or no test source is (lemma \<open>run_epoch_cancelled\<close>).
  With a test source and no validation source it does not: the retry leaves the test
  history one entry short (the defect of C1), the plot of that history in \<open>draw_info\<close>
  raises \<open>ValueError\<close>, and that exception leaves the \<open>finally\<close> suite in place of the
  cancellation, before the increment. In the epoch below, which meets the other conditions
  (the clock has advanced, nothing interrupts the report), the timing update has run and
  the report was attempted, but the epoch counter is still 1.
\<close>

theorem finally_contract_test_only:
  "commit_cancel (epochs (cancelled_run [2] [] [3] BeforeTrainAppend) 0) = Some BeforeTrainAppend
   \<and> draw_fault (epochs (cancelled_run [2] [] [3] BeforeTrainAppend) 0) = None
   \<and> clock (epochs (cancelled_run [2] [] [3] BeforeTrainAppend) 0)
       \<noteq> time_stamp (init False True False 1 None)
   \<and> snd (snd (run_epoch (epochs (cancelled_run [2] [] [3] BeforeTrainAppend) 0) None
                  (init False True False 1 None)))
       = Raises TimingPhase ValueError
   \<and> time_elapsed (fst (run_epoch (epochs (cancelled_run [2] [] [3] BeforeTrainAppend) 0) None
                          (init False True False 1 None))) = 1
   \<and> reports (fst (run_epoch (epochs (cancelled_run [2] [] [3] BeforeTrainAppend) 0) None
                     (init False True False 1 None))) = 1
   \<and> epoch (fst (run_epoch (epochs (cancelled_run [2] [] [3] BeforeTrainAppend) 0) None
                   (init False True False 1 None))) = 1"
  by (simp add: run_simps)




text \<open>
  C5, the completion flag: \<open>completed\<close> is false at construction; in every reachable state
  with \<open>epoch \<le> n_epochs\<close> it is false; a call of \<open>train\<close> that propagates an exception
  leaves it as it was, and a call that returns normally sets it; and, for an epoch count
  that is not negative, a call that returns normally from a reachable state ends with
  \<open>epoch = n_epochs + 1\<close>, which is where the counter stands in every reachable state with
  the flag set.
\<close>

theorem completed_flag:
  "\<not> completed (init network_training test_given valid_given n c)
   \<and> (reachable s \<and> epoch s \<le> n_epochs s \<longrightarrow> \<not> completed s)
   \<and> (train env s = (s', out) \<longrightarrow> completed s' = (if out = Normal then True else completed s))
   \<and> (reachable s \<and> 0 \<le> n_epochs s \<and> train env s = (s', Normal)
        \<longrightarrow> completed s' \<and> epoch s' = n_epochs s + 1)
   \<and> (reachable s \<and> 0 \<le> n_epochs s \<and> completed s \<longrightarrow> epoch s = n_epochs s + 1)"
proof (intro conjI impI)
  show "\<not> completed (init network_training test_given valid_given n c)"
    by (simp add: init_def)
next
  assume "reachable s \<and> epoch s \<le> n_epochs s"
  with reachable_completed[of s] show "\<not> completed s" by auto
next
  assume "train env s = (s', out)"
  from train_frame[OF this] show "completed s' = (if out = Normal then True else completed s)"
    by simp
next
  assume a: "reachable s \<and> 0 \<le> n_epochs s \<and> train env s = (s', Normal)"
  then have t: "train env s = (s', Normal)" by simp
  from train_frame[OF t] show "completed s'" by simp
  from a reachable_epoch[of s] have "epoch s \<le> n_epochs s + 1" by simp
  with train_frame[OF t] show "epoch s' = n_epochs s + 1" by simp
next
  assume a: "reachable s \<and> 0 \<le> n_epochs s \<and> completed s"
  with reachable_completed[of s] reachable_epoch[of s] show "epoch s = n_epochs s + 1"
    by simp
qed

theorem completed_flag_witness:
  "reachable (init False False False 3 None)
   \<and> epoch (init False False False 3 None) \<le> n_epochs (init False False False 3 None)
   \<and> \<not> completed (init False False False 3 None)
   \<and> snd (train (steady_run [2] [] []) (init False False False 3 None)) = Normal
   \<and> completed (fst (train (steady_run [2] [] []) (init False False False 3 None)))
   \<and> epoch (fst (train (steady_run [2] [] []) (init False False False 3 None))) = 4
   \<and> snd (train (cancelled_run [2] [] [] BeforeReturn) (init False False False 3 None))
       = Raises CommitPhase KeyboardInterrupt
   \<and> \<not> completed (fst (train (cancelled_run [2] [] [] BeforeReturn) (init False False False 3 None)))"
proof -
  let ?s = "init False False False 3 None"
  let ?r = "train (steady_run [2] [] []) ?s"
  let ?q = "train (cancelled_run [2] [] [] BeforeReturn) ?s"
  have r: "reachable ?s" by (rule reach_init)
  have n: "n_epochs ?s = 3" "epoch ?s = 1" by (simp_all add: init_def)
  have o: "snd ?r = Normal" by (simp add: run_simps)
  then have h: "?r = (fst ?r, Normal)" by (metis prod.collapse)
  have oq: "snd ?q = Raises CommitPhase KeyboardInterrupt" by (simp add: run_simps)
  have hq: "?q = (fst ?q, snd ?q)" by simp
  from completed_flag[of False False False 3 None ?s "steady_run [2] [] []" "fst ?r" Normal] r n h
  have 1: "\<not> completed ?s \<and> completed (fst ?r) \<and> epoch (fst ?r) = 4" by simp
  from completed_flag[of False False False 3 None ?s "cancelled_run [2] [] [] BeforeReturn"
         "fst ?q" "snd ?q"] hq oq
  have 2: "\<not> completed (fst ?q)" by simp
  from r n o oq 1 2 show ?thesis by simp
qed



text \<open>
  C7, the empty train source, as amended: in the first epoch that a call of \<open>train\<close> runs,
  where the local \<open>n_batch\<close> is still unbound, an empty train source makes the epoch fail
  with \<open>UnboundLocalError\<close> at the division, before anything is committed: the call ends
  in the state it started in but for the time stamp taken at entry and the mode flag set by
  \<open>network.train(True)\<close>. For a train source that is not empty, the training pass that
  completes leaves \<open>n_batch\<close> at the number of batches seen and the train loss at the sum of
  the batch losses divided by that number.
\<close>

theorem empty_train_source_first_epoch:
  "(train_src env1 = [] \<longrightarrow>
      run_epoch env1 None s = (s\<lparr>mode := True\<rparr>, None, Raises TrainPhase UnboundLocalError))
   \<and> (epoch s \<le> n_epochs s \<and> train_src (epochs env 0) = [] \<longrightarrow>
        train env s = (s\<lparr>time_stamp := start_clock env, mode := True\<rparr>,
                       Raises TrainPhase UnboundLocalError))
   \<and> (train_src env2 \<noteq> [] \<and> train_phase env2 nb s = (s1, nb1, Normal) \<longrightarrow>
        nb1 = Some (length (train_src env2))
        \<and> train_loss s1 = sum_list (map loss (train_src env2)) / real (length (train_src env2)))"
proof (intro conjI impI)
  assume "train_src env1 = []"
  then show "run_epoch env1 None s = (s\<lparr>mode := True\<rparr>, None, Raises TrainPhase UnboundLocalError)"
    by (simp add: run_epoch_def train_phase_unbound)
next
  assume a: "epoch s \<le> n_epochs s \<and> train_src (epochs env 0) = []"
  then obtain k where k: "nat (n_epochs s + 1 - epoch s) = Suc k"
    by (cases "nat (n_epochs s + 1 - epoch s)") auto
  from a have "run_epoch (epochs env 0) None (s\<lparr>time_stamp := start_clock env\<rparr>)
      = (s\<lparr>time_stamp := start_clock env, mode := True\<rparr>, None, Raises TrainPhase UnboundLocalError)"
    by (simp add: run_epoch_def train_phase_unbound)
  with k show "train env s = (s\<lparr>time_stamp := start_clock env, mode := True\<rparr>,
                       Raises TrainPhase UnboundLocalError)"
    by (simp add: train_def)
next
  assume a: "train_src env2 \<noteq> [] \<and> train_phase env2 nb s = (s1, nb1, Normal)"
  then have t: "train_phase env2 nb s = (s1, nb1, Normal)" and ne: "train_src env2 \<noteq> []"
    by simp_all
  from train_phase_ok[OF t] ne show "nb1 = Some (length (train_src env2))" by simp
  from train_phase_ok[OF t] ne
  show "train_loss s1 = sum_list (map loss (train_src env2)) / real (length (train_src env2))"
    by simp
qed

theorem empty_train_source_first_epoch_witness:
  "epoch (init False False False 1 None) \<le> n_epochs (init False False False 1 None)
   \<and> train_src (epochs (steady_run [] [] []) 0) = []
   \<and> snd (train (steady_run [] [] []) (init False False False 1 None))
       = Raises TrainPhase UnboundLocalError
   \<and> train_loss_history (fst (train (steady_run [] [] []) (init False False False 1 None))) = []
   \<and> epoch (fst (train (steady_run [] [] []) (init False False False 1 None))) = 1
   \<and> map loss (train_src (quiet_epoch [2, 4, 6] [] [] 1)) = [2, 4, 6]
   \<and> snd (snd (train_phase (quiet_epoch [2, 4, 6] [] [] 1) None (init False False False 1 None)))
       = Normal
   \<and> fst (snd (train_phase (quiet_epoch [2, 4, 6] [] [] 1) None (init False False False 1 None)))
       = Some 3
   \<and> train_loss (fst (train_phase (quiet_epoch [2, 4, 6] [] [] 1) None
                         (init False False False 1 None))) = 4"
proof -
  let ?s = "init False False False 1 None"
  let ?e = "steady_run [] [] []"
  let ?q = "quiet_epoch [2, 4, 6] [] [] 1"
  let ?t = "train_phase ?q None ?s"
  have a: "epoch ?s \<le> n_epochs ?s" "train_src (epochs ?e 0) = []"
    by (simp_all add: init_def steady_run_def quiet_epoch_def)
  with empty_train_source_first_epoch[of "epochs ?e 0" ?s ?e ?q None "fst ?t" "fst (snd ?t)"]
  have 1: "train ?e ?s = (?s\<lparr>time_stamp := start_clock ?e, mode := True\<rparr>,
                        Raises TrainPhase UnboundLocalError)" by simp
  have src: "map loss (train_src ?q) = [2, 4, 6]" by (simp add: quiet_epoch_def plain_batch_def)
  then have ne: "train_src ?q \<noteq> []" by auto
  have len: "length (train_src ?q) = 3" by (simp add: quiet_epoch_def)
  have o: "snd (snd ?t) = Normal" by (simp add: run_simps)
  then have h: "?t = (fst ?t, fst (snd ?t), Normal)" by (metis prod.collapse)
  from empty_train_source_first_epoch[of "epochs ?e 0" ?s ?e ?q None "fst ?t" "fst (snd ?t)"]
       ne h src len
  have 2: "fst (snd ?t) = Some 3 \<and> train_loss (fst ?t) = 4" by simp
  from a 1 src o 2 show ?thesis by (simp add: init_def)
qed

text \<open>
  The claim as stated fails: \<open>n_batch\<close> is a local of \<open>train\<close>, bound once a batch loop has
  run a batch, so in a later epoch of the same call an empty train source does not fail.
  Here the source yields one batch of loss 2 in the first epoch and none in the second:
  the second epoch divides 0 by the old count, commits 0 and advances the counter.
\<close>

theorem empty_train_source_counterexample:
  "train_src (epochs drained_run 1) = []
   \<and> snd (train drained_run (init False False False 2 None)) = Normal
   \<and> train_loss_history (fst (train drained_run (init False False False 2 None))) = [2, 0]
   \<and> epoch (fst (train drained_run (init False False False 2 None))) = 3"
  by (simp add: run_simps)

text \<open>
  C8, clear resets fully: after \<open>clear_history\<close>, on any controller state, the three loss
  histories are empty, the epoch counter is 1, the completion flag is false and the elapsed
  time is 0, while the configuration is unchanged.
\<close>

theorem clear_history_resets:
  "train_loss_history (clear_history s) = []
   \<and> valid_loss_history (clear_history s) = []
   \<and> test_loss_history (clear_history s) = []
   \<and> epoch (clear_history s) = 1
   \<and> completed (clear_history s) = False
   \<and> time_elapsed (clear_history s) = 0
   \<and> config_of (clear_history s) = config_of s"
  by (simp add: clear_history_def config_of_def)



text \<open>
  C10, defensive-copy accessors. Each of the three history accessors returns a list
  object of its own with the contents of the internal list: whatever the caller then does
  in place to the returned object, the contents of the three internal lists stay as they
  were, and a second read returns another object with the same contents as the first.
\<close>

theorem accessors_return_copies:
  assumes "allocated ob h"
  shows
    "(case get_train_loss_history ob h of (r, h1) \<Rightarrow>
        cells h1 r = cells h (train_history_ref ob) \<and> view ob (list_mutate r f h1) = view ob h
        \<and> (case get_train_loss_history ob h1 of (r2, h2) \<Rightarrow>
              r2 \<noteq> r \<and> cells h2 r2 = cells h2 r \<and> view ob h2 = view ob h))
     \<and> (case get_test_loss_history ob h of (r, h1) \<Rightarrow>
        cells h1 r = cells h (test_history_ref ob) \<and> view ob (list_mutate r f h1) = view ob h
        \<and> (case get_test_loss_history ob h1 of (r2, h2) \<Rightarrow>
              r2 \<noteq> r \<and> cells h2 r2 = cells h2 r \<and> view ob h2 = view ob h))
     \<and> (case get_valid_loss_history ob h of (r, h1) \<Rightarrow>
        cells h1 r = cells h (valid_history_ref ob) \<and> view ob (list_mutate r f h1) = view ob h
        \<and> (case get_valid_loss_history ob h1 of (r2, h2) \<Rightarrow>
              r2 \<noteq> r \<and> cells h2 r2 = cells h2 r \<and> view ob h2 = view ob h))"
proof -
  from assms have al: "train_history_ref ob < next_ref h" "valid_history_ref ob < next_ref h"
    "test_history_ref ob < next_ref h" by (simp_all add: allocated_def)
  from copy_isolated[OF assms al(1), of f] copy_isolated[OF assms al(2), of f]
       copy_isolated[OF assms al(3), of f]
  show ?thesis
    unfolding get_train_loss_history_def get_test_loss_history_def get_valid_loss_history_def
    by simp
qed

theorem accessors_return_copies_witness:
  "allocated sample_obj sample_heap
   \<and> view sample_obj sample_heap = ([4], [5], [6])
   \<and> fst (get_train_loss_history sample_obj sample_heap) = 3
   \<and> cells (snd (get_train_loss_history sample_obj sample_heap)) 3 = [4]
   \<and> view sample_obj
        (list_mutate 3 (\<lambda>xs. xs @ [9]) (snd (get_train_loss_history sample_obj sample_heap)))
       = ([4], [5], [6])
   \<and> cells (list_mutate 3 (\<lambda>xs. xs @ [9]) (snd (get_train_loss_history sample_obj sample_heap))) 3
       = [4, 9]"
proof -
  let ?g = "get_train_loss_history sample_obj sample_heap"
  have a: "allocated sample_obj sample_heap"
    by (simp add: allocated_def sample_obj_def sample_heap_def)
  have v: "view sample_obj sample_heap = ([4], [5], [6])"
    by (simp add: view_def sample_obj_def sample_heap_def)
  have g: "fst ?g = 3" "cells sample_heap (train_history_ref sample_obj) = [4]"
    by (simp_all add: get_train_loss_history_def list_copy_def sample_obj_def sample_heap_def)
  have h: "?g = (3, snd ?g)" using g(1) by (metis prod.collapse)
  from accessors_return_copies[OF a, of "\<lambda>xs. xs @ [9]"] h v g(2)
  have 1: "cells (snd ?g) 3 = [4]
           \<and> view sample_obj (list_mutate 3 (\<lambda>xs. xs @ [9]) (snd ?g)) = ([4], [5], [6])"
    by (simp split: prod.splits)
  then have "cells (list_mutate 3 (\<lambda>xs. xs @ [9]) (snd ?g)) 3 = [4, 9]"
    by (simp add: list_mutate_cells)
  with a v g(1) 1 show ?thesis by simp
qed

end
